theory Spec2Isabelle
  imports Main "HOL-Library.Char_ord" "HOL-Library.List_Lexorder" "HOL-Library.Sublist"
begin

section \<open>Python values\<close>

text \<open>
  The harness works on the output of \<^verbatim>\<open>json.loads\<close>, of \<^verbatim>\<open>yaml.safe_load\<close> and of its own
  text parsers: nested dicts and lists with \<^verbatim>\<open>Any\<close> at the leaves. A value is \<^verbatim>\<open>None\<close>,
  an integer (Python's \<^verbatim>\<open>bool\<close> is an \<^verbatim>\<open>int\<close>: \<^verbatim>\<open>True == 1\<close>), a string, a list or a
  dict with string keys, kept as the list of its items in insertion order. Floats are
  outside the model.
\<close>

datatype json =
    JNull
  | JInt int
  | JStr string
  | JList "json list"
  | JObj "(string \<times> json) list"

type_synonym dict = "(string \<times> json) list"

text \<open>The exceptions the modelled code can raise.\<close>

datatype error = AttributeError | TypeError | KeyError | ValueError

fun and_then :: "error + 'a \<Rightarrow> ('a \<Rightarrow> error + 'b) \<Rightarrow> error + 'b" where
  "and_then (Inl e) f = Inl e"
| "and_then (Inr v) f = f v"

text \<open>A loop body that may raise, run over a list from left to right.\<close>

fun map_result :: "('a \<Rightarrow> error + 'b) \<Rightarrow> 'a list \<Rightarrow> error + 'b list" where
  "map_result f [] = Inr []"
| "map_result f (x # xs) =
     and_then (f x) (\<lambda>y. and_then (map_result f xs) (\<lambda>ys. Inr (y # ys)))"

text \<open>Truth value of an object (\<^verbatim>\<open>if x:\<close>, \<^verbatim>\<open>x or y\<close>).\<close>

fun truthy :: "json \<Rightarrow> bool" where
  "truthy JNull = False"
| "truthy (JInt n) = (n \<noteq> 0)"
| "truthy (JStr s) = (s \<noteq> [])"
| "truthy (JList xs) = (xs \<noteq> [])"
| "truthy (JObj kvs) = (kvs \<noteq> [])"

text \<open>Lists and dicts are unhashable: using one as a dict key raises TypeError.\<close>

fun hashable :: "json \<Rightarrow> bool" where
  "hashable (JList xs) = False"
| "hashable (JObj kvs) = False"
| "hashable v = True"

fun is_str :: "json \<Rightarrow> bool" where
  "is_str (JStr s) = True"
| "is_str v = False"

fun is_int :: "json \<Rightarrow> bool" where
  "is_int (JInt n) = True"
| "is_int v = False"

fun str_of :: "json \<Rightarrow> string" where
  "str_of (JStr s) = s"
| "str_of v = []"

fun int_of :: "json \<Rightarrow> int" where
  "int_of (JInt n) = n"
| "int_of v = 0"

text \<open>
  \<^verbatim>\<open>d.get(k, default)\<close> and \<^verbatim>\<open>d.get(k)\<close> on a dict, and on an arbitrary object, where
  anything but a dict has no attribute \<^verbatim>\<open>get\<close>.
\<close>

definition get_or :: "dict \<Rightarrow> string \<Rightarrow> json \<Rightarrow> json" where
  "get_or d k dflt = (case map_of d k of Some v \<Rightarrow> v | None \<Rightarrow> dflt)"

definition get_none :: "dict \<Rightarrow> string \<Rightarrow> json" where
  "get_none d k = get_or d k JNull"

fun as_dict :: "json \<Rightarrow> error + dict" where
  "as_dict (JObj kvs) = Inr kvs"
| "as_dict v = Inl AttributeError"

text \<open>
  \<^verbatim>\<open>d[k] = v\<close> on a dict kept as its item list: an existing key keeps its place and
  takes the new value, a new key goes to the end.
\<close>

fun dict_set :: "('k \<times> 'v) list \<Rightarrow> 'k \<Rightarrow> 'v \<Rightarrow> ('k \<times> 'v) list" where
  "dict_set [] k v = [(k, v)]"
| "dict_set ((k', v') # kvs) k v =
     (if k' = k then (k, v) # kvs else (k', v') # dict_set kvs k v)"

text \<open>
  Iteration (\<^verbatim>\<open>for x in v\<close>): a list yields its elements, a dict its keys, a string its
  characters; \<^verbatim>\<open>None\<close> and integers are not iterable.
\<close>

fun py_iter :: "json \<Rightarrow> error + json list" where
  "py_iter (JList xs) = Inr xs"
| "py_iter (JObj kvs) = Inr (map (\<lambda>kv. JStr (fst kv)) kvs)"
| "py_iter (JStr s) = Inr (map (\<lambda>c. JStr [c]) s)"
| "py_iter v = Inl TypeError"

text \<open>\<^verbatim>\<open>m.get(k, default)\<close> on a dict with arbitrary hashable keys.\<close>

definition lookup_or :: "('k \<times> 'v) list \<Rightarrow> 'k \<Rightarrow> 'v \<Rightarrow> 'v" where
  "lookup_or m k dflt = (case map_of m k of Some v \<Rightarrow> v | None \<Rightarrow> dflt)"

text \<open>\<^verbatim>\<open>{**a, **b}\<close>: the items of \<open>b\<close> stored into \<open>a\<close> one by one.\<close>

definition dict_update :: "('k \<times> 'v) list \<Rightarrow> ('k \<times> 'v) list \<Rightarrow> ('k \<times> 'v) list" where
  "dict_update a b = fold (\<lambda>kv acc. dict_set acc (fst kv) (snd kv)) b a"

text \<open>
  \<^verbatim>\<open>str(v)\<close> as used by f-strings. A string formats as itself; the text of any other
  object is the parameter \<open>fmt\<close>.
\<close>

definition py_str :: "(json \<Rightarrow> string) \<Rightarrow> json \<Rightarrow> string" where
  "py_str fmt v = (case v of JStr s \<Rightarrow> s | _ \<Rightarrow> fmt v)"

text \<open>
  \<^verbatim>\<open>sorted(xs, key=kf)\<close>. Python's sort is stable and compares keys with \<^verbatim>\<open><\<close>: strings
  by code point, integers by value. A list of at most one element is never compared.
  Keys of different types, \<^verbatim>\<open>None\<close> and dicts do not compare and raise TypeError; keys
  that are all lists (compared element by element in Python) are outside the model and
  raise here as well.
\<close>

definition py_sorted :: "('a \<Rightarrow> json) \<Rightarrow> 'a list \<Rightarrow> error + 'a list" where
  "py_sorted kf xs =
     (if length xs \<le> 1 then Inr xs
      else if list_all (\<lambda>x. is_str (kf x)) xs then Inr (sort_key (\<lambda>x. str_of (kf x)) xs)
      else if list_all (\<lambda>x. is_int (kf x)) xs then Inr (sort_key (\<lambda>x. int_of (kf x)) xs)
      else Inl TypeError)"

section \<open>Normalisation\<close>

text \<open>\<^verbatim>\<open>devices[0] if devices else {}\<close> in \<^verbatim>\<open>_norm_lib\<close>.\<close>

fun first_or_empty :: "json \<Rightarrow> error + json" where
  "first_or_empty (JList (x # xs)) = Inr x"
| "first_or_empty (JStr (c # cs)) = Inr (JStr [c])"
| "first_or_empty (JObj (kv # kvs)) = Inl KeyError"
| "first_or_empty (JInt n) = (if n = 0 then Inr (JObj []) else Inl TypeError)"
| "first_or_empty v = Inr (JObj [])"

text \<open>The storage comprehensions of \<^verbatim>\<open>_norm_lib\<close> and \<^verbatim>\<open>_norm_swift\<close>.\<close>

definition lib_storage :: "json \<Rightarrow> error + dict" where
  "lib_storage s =
     and_then (as_dict s) (\<lambda>sd. Inr
       [(''description'', get_or sd ''description'' (JStr [])),
        (''capacity_bytes'', get_or sd ''capacity_bytes'' (JInt 0))])"

definition swift_storage :: "json \<Rightarrow> error + dict" where
  "swift_storage s =
     and_then (as_dict s) (\<lambda>sd. Inr
       [(''description'', get_or sd ''description'' (get_or sd ''name'' (JStr []))),
        (''capacity_bytes'', get_or sd ''capacityBytes'' (get_or sd ''capacity_bytes'' (JInt 0)))])"

definition sorted_storages :: "(json \<Rightarrow> error + dict) \<Rightarrow> dict \<Rightarrow> error + dict list" where
  "sorted_storages storage dev =
     and_then (py_iter (get_or dev ''storages'' (JList []))) (\<lambda>ss.
     and_then (map_result storage ss) (\<lambda>sts.
     py_sorted (\<lambda>s. get_or s ''description'' (JStr [])) sts))"

definition norm_lib :: "dict \<Rightarrow> error + dict" where
  "norm_lib d =
     and_then (first_or_empty (get_or d ''devices'' (JList []))) (\<lambda>dev0.
     and_then (as_dict dev0) (\<lambda>dev.
     and_then (sorted_storages lib_storage dev) (\<lambda>storages. Inr
       [(''manufacturer'', get_or dev ''manufacturer'' (JStr [])),
        (''model'', get_or dev ''model'' (JStr [])),
        (''firmware'', get_or dev ''firmware'' (JStr [])),
        (''friendly_name'', get_or dev ''friendly_name'' (JStr [])),
        (''storages'', JList (map JObj storages))])))"

definition norm_swift :: "dict \<Rightarrow> error + dict" where
  "norm_swift d =
     and_then (as_dict (get_or d ''device'' (JObj d))) (\<lambda>dev.
     and_then (sorted_storages swift_storage dev) (\<lambda>storages. Inr
       [(''manufacturer'', get_or dev ''manufacturer'' (JStr [])),
        (''model'', get_or dev ''model'' (get_or dev ''friendlyName'' (JStr []))),
        (''firmware'', get_or dev ''firmwareVersion'' (get_or dev ''firmware'' (JStr []))),
        (''friendly_name'', get_or dev ''friendlyName'' (get_or dev ''friendly_name'' (JStr []))),
        (''storages'', JList (map JObj storages))]))"

definition normalise_device :: "dict \<Rightarrow> dict \<Rightarrow> error + dict \<times> dict" where
  "normalise_device libmtp_detect swiftmtp_probe =
     and_then (norm_lib libmtp_detect) (\<lambda>a.
     and_then (norm_swift swiftmtp_probe) (\<lambda>b. Inr (a, b)))"

text \<open>
  \<^verbatim>\<open>f"{parent}/{name}" if parent else name\<close>, the path expression shared by the folder
  map, the libmtp file list and the SwiftMTP tree walk.
\<close>

definition join_path :: "(json \<Rightarrow> string) \<Rightarrow> json \<Rightarrow> json \<Rightarrow> json" where
  "join_path fmt parent name =
     (if truthy parent then JStr (py_str fmt parent @ ''/'' @ py_str fmt name) else name)"

text \<open>
  The folder loop of \<^verbatim>\<open>_normalise_files\<close>, run over the folders sorted by id, from the
  map \<^verbatim>\<open>{0: ""}\<close>.
\<close>

fun folder_loop ::
  "(json \<Rightarrow> string) \<Rightarrow> dict list \<Rightarrow> (json \<times> json) list \<Rightarrow> error + (json \<times> json) list" where
  "folder_loop fmt [] folder_map = Inr folder_map"
| "folder_loop fmt (folder # rest) folder_map =
     (let fid = get_or folder ''id'' (JInt 0);
          pid = get_or folder ''parent_id'' (JInt 0)
      in if \<not> hashable pid then Inl TypeError
         else
           let parent = lookup_or folder_map pid (JStr []);
               name = get_or folder ''name'' (JStr (py_str fmt fid))
           in if \<not> hashable fid then Inl TypeError
              else folder_loop fmt rest (dict_set folder_map fid (join_path fmt parent name)))"

definition build_folder_map ::
  "(json \<Rightarrow> string) \<Rightarrow> dict list \<Rightarrow> error + (json \<times> json) list" where
  "build_folder_map fmt libmtp_folders =
     and_then (py_sorted (\<lambda>f. get_or f ''id'' (JInt 0)) libmtp_folders) (\<lambda>folders.
     folder_loop fmt folders [(JInt 0, JStr [])])"

definition lib_entry :: "(json \<Rightarrow> string) \<Rightarrow> (json \<times> json) list \<Rightarrow> dict \<Rightarrow> error + dict" where
  "lib_entry fmt folder_map f =
     (let pid = get_or f ''parent_id'' (JInt 0)
      in if \<not> hashable pid then Inl TypeError
         else
           let parent_path = lookup_or folder_map pid (JStr []);
               name = get_or f ''name'' (JStr [])
           in Inr ([(''path'', join_path fmt parent_path name),
                    (''size_bytes'', get_or f ''size_bytes'' (JInt 0))] @
                   (case map_of f ''mtime'' of Some m \<Rightarrow> [(''mtime'', m)] | None \<Rightarrow> [])))"

definition lib_files_of ::
  "(json \<Rightarrow> string) \<Rightarrow> (json \<times> json) list \<Rightarrow> dict list \<Rightarrow> error + dict list" where
  "lib_files_of fmt folder_map libmtp_files =
     and_then (map_result (lib_entry fmt folder_map) libmtp_files) (\<lambda>out.
     py_sorted (\<lambda>x. get_none x ''path'') out)"

lemma map_of_size_less:
  "map_of kvs k = Some v \<Longrightarrow> size v < Suc (size_list (size_prod (\<lambda>_. 0) size) kvs)"
  by (induction kvs) (auto split: if_splits)

text \<open>
  \<^verbatim>\<open>_flatten_tree\<close>: the generator's items in the order it yields them. An item that is
  not a dict raises AttributeError when the walk reaches it.
\<close>

function flatten_tree :: "(json \<Rightarrow> string) \<Rightarrow> json \<Rightarrow> json \<Rightarrow> error + dict list"
  and flatten_items :: "(json \<Rightarrow> string) \<Rightarrow> json list \<Rightarrow> json \<Rightarrow> error + dict list" where
  "flatten_tree fmt items pfx =
     (case items of JList xs \<Rightarrow> flatten_items fmt xs pfx | _ \<Rightarrow> Inr [])"
| "flatten_items fmt [] pfx = Inr []"
| "flatten_items fmt (item # rest) pfx =
     (case item of
        JObj d \<Rightarrow>
          let name = get_or d ''name'' (JStr []);
              path = join_path fmt pfx name
          in if get_none d ''type'' = JStr ''folder''
             then and_then (flatten_tree fmt (get_or d ''children'' (JList [])) path) (\<lambda>ys.
                  and_then (flatten_items fmt rest pfx) (\<lambda>zs. Inr (ys @ zs)))
             else and_then (flatten_items fmt rest pfx) (\<lambda>zs. Inr (dict_set d ''path'' path # zs))
      | _ \<Rightarrow> Inl AttributeError)"
  by pat_completeness auto
termination
  apply (relation "measure (\<lambda>x. case x of Inl (fmt, items, pfx) \<Rightarrow> 2 * size items + 1
                                  | Inr (fmt, xs, pfx) \<Rightarrow> 2 * size_list size xs + 2)")
  apply simp
  apply simp
  apply (auto simp: get_or_def split: option.splits json.splits dest!: map_of_size_less)
  done

text \<open>
  The loop body of \<^verbatim>\<open>_swift_files\<close>. \<^verbatim>\<open>_parse_iso_or_ctime\<close> rests on the date parsers
  of the standard library and is the parameter \<open>parse_ts\<close>.
\<close>

definition swift_entry :: "(string \<Rightarrow> int option) \<Rightarrow> dict \<Rightarrow> dict" where
  "swift_entry parse_ts item =
     [(''path'', get_or item ''path'' (get_or item ''name'' (JStr []))),
      (''size_bytes'', get_or item ''sizeBytes'' (get_or item ''size_bytes'' (JInt 0)))] @
     (case get_or item ''modificationDate'' (get_none item ''mtime'') of
        JInt n \<Rightarrow> [(''mtime'', JInt n)]
      | JStr s \<Rightarrow> (case parse_ts s of Some ts \<Rightarrow> [(''mtime'', JInt ts)] | None \<Rightarrow> [])
      | _ \<Rightarrow> [])"

definition swift_files_of ::
  "(json \<Rightarrow> string) \<Rightarrow> (string \<Rightarrow> int option) \<Rightarrow> json \<Rightarrow> error + dict list" where
  "swift_files_of fmt parse_ts swiftmtp_ls =
     (let items = (case swiftmtp_ls of
                     JList xs \<Rightarrow> swiftmtp_ls
                   | JObj d \<Rightarrow> get_or d ''items'' (JList [])
                   | _ \<Rightarrow> JList [])
      in and_then (flatten_tree fmt items (JStr [])) (\<lambda>flat.
         py_sorted (\<lambda>x. get_none x ''path'') (map (swift_entry parse_ts) flat)))"

definition normalise_files ::
  "(json \<Rightarrow> string) \<Rightarrow> (string \<Rightarrow> int option) \<Rightarrow> dict list \<Rightarrow> dict list \<Rightarrow> json
     \<Rightarrow> error + dict list \<times> dict list" where
  "normalise_files fmt parse_ts libmtp_files libmtp_folders swiftmtp_ls =
     and_then (build_folder_map fmt libmtp_folders) (\<lambda>folder_map.
     and_then (lib_files_of fmt folder_map libmtp_files) (\<lambda>lf.
     and_then (swift_files_of fmt parse_ts swiftmtp_ls) (\<lambda>sf. Inr (lf, sf))))"

section \<open>Diff engine\<close>

definition LABEL_BUG_SWIFTMTP :: string where "LABEL_BUG_SWIFTMTP = ''bug_swiftmtp''"
definition LABEL_BUG_LIBMTP :: string where "LABEL_BUG_LIBMTP = ''bug_libmtp''"
definition LABEL_INTENTIONAL :: string where "LABEL_INTENTIONAL = ''intentional''"
definition LABEL_QUIRK_NEEDED :: string where "LABEL_QUIRK_NEEDED = ''quirk_needed''"
definition LABEL_UNKNOWN :: string where "LABEL_UNKNOWN = ''unknown''"

definition ALL_LABELS :: "string list" where
  "ALL_LABELS =
     [LABEL_BUG_SWIFTMTP, LABEL_BUG_LIBMTP, LABEL_INTENTIONAL, LABEL_QUIRK_NEEDED, LABEL_UNKNOWN]"

text \<open>
  Class \<^verbatim>\<open>DiffEntry\<close>. The label and the reason are typed \<^verbatim>\<open>str\<close> in the source, but
  classification stores whatever the overlay holds, so both are values here.
\<close>

record diff_entry =
  key :: string
  libmtp_val :: json
  swiftmtp_val :: json
  label :: json
  reason :: json

definition DiffEntry :: "string \<Rightarrow> json \<Rightarrow> json \<Rightarrow> diff_entry" where
  "DiffEntry k a b =
     \<lparr>key = k, libmtp_val = a, swiftmtp_val = b, label = JStr LABEL_UNKNOWN, reason = JStr []\<rparr>"

text \<open>
  \<^verbatim>\<open>{f["path"]: f for f in files}\<close>: a record without a path raises KeyError, an
  unhashable path raises TypeError, a later record with the same path replaces the
  earlier one.
\<close>

fun index_files :: "dict list \<Rightarrow> (json \<times> dict) list \<Rightarrow> error + (json \<times> dict) list" where
  "index_files [] acc = Inr acc"
| "index_files (f # fs) acc =
     (case map_of f ''path'' of
        None \<Rightarrow> Inl KeyError
      | Some p \<Rightarrow> if hashable p then index_files fs (dict_set acc p f) else Inl TypeError)"

fun opt_json :: "dict option \<Rightarrow> json" where
  "opt_json None = JNull"
| "opt_json (Some d) = JObj d"

text \<open>
  The timestamp comparison of \<^verbatim>\<open>_diff_files\<close>:
  \<^verbatim>\<open>a_mt is not None and b_mt is not None and abs(a_mt - b_mt) > ts_tol\<close>.
  Subtraction is defined on numbers only.
\<close>

definition mtime_differs :: "json \<Rightarrow> json \<Rightarrow> int \<Rightarrow> error + bool" where
  "mtime_differs a_mt b_mt ts_tol =
     (if a_mt \<noteq> JNull \<and> b_mt \<noteq> JNull then
        (case (a_mt, b_mt) of
           (JInt x, JInt y) \<Rightarrow> Inr (\<bar>x - y\<bar> > ts_tol)
         | _ \<Rightarrow> Inl TypeError)
      else Inr False)"

text \<open>The body of the loop over paths in \<^verbatim>\<open>_diff_files\<close>.\<close>

definition diff_path ::
  "(json \<Rightarrow> string) \<Rightarrow> (json \<times> dict) list \<Rightarrow> (json \<times> dict) list \<Rightarrow> int \<Rightarrow> json
     \<Rightarrow> error + diff_entry list" where
  "diff_path fmt lib_map swift_map ts_tol path =
     (case map_of lib_map path of
        None \<Rightarrow> Inr [DiffEntry (''file.'' @ py_str fmt path) JNull (opt_json (map_of swift_map path))]
      | Some a \<Rightarrow>
          (case map_of swift_map path of
             None \<Rightarrow> Inr [DiffEntry (''file.'' @ py_str fmt path) (JObj a) JNull]
           | Some b \<Rightarrow>
               and_then (mtime_differs (get_none a ''mtime'') (get_none b ''mtime'') ts_tol)
                 (\<lambda>late. Inr
                   ((if get_none a ''size_bytes'' \<noteq> get_none b ''size_bytes''
                     then [DiffEntry (''file.'' @ py_str fmt path @ ''.size_bytes'')
                             (get_none a ''size_bytes'') (get_none b ''size_bytes'')]
                     else []) @
                    (if late
                     then [DiffEntry (''file.'' @ py_str fmt path @ ''.mtime'')
                             (get_none a ''mtime'') (get_none b ''mtime'')]
                     else [])))))"

definition diff_files ::
  "(json \<Rightarrow> string) \<Rightarrow> dict list \<Rightarrow> dict list \<Rightarrow> int \<Rightarrow> error + diff_entry list" where
  "diff_files fmt lib_files swift_files ts_tol =
     and_then (index_files lib_files []) (\<lambda>lib_map.
     and_then (index_files swift_files []) (\<lambda>swift_map.
     and_then (py_sorted (\<lambda>p. p) (remdups (map fst lib_map @ map fst swift_map))) (\<lambda>paths.
     and_then (map_result (diff_path fmt lib_map swift_map ts_tol) paths) (\<lambda>dss.
     Inr (concat dss)))))"

text \<open>\<^verbatim>\<open>_diff_device\<close>: the keys of a dict are strings, so their sort never raises.\<close>

definition diff_device :: "dict \<Rightarrow> dict \<Rightarrow> diff_entry list" where
  "diff_device norm_l norm_s =
     concat (map (\<lambda>k. if get_none norm_l k \<noteq> get_none norm_s k
                       then [DiffEntry (''device.'' @ k) (get_none norm_l k) (get_none norm_s k)]
                       else [])
                 (sort (remdups (map fst norm_l @ map fst norm_s))))"

section \<open>Expectation overlay\<close>

text \<open>\<^verbatim>\<open>section_label_map.get(section)\<close> in \<^verbatim>\<open>_build_map\<close>.\<close>

definition implied_label :: "string \<Rightarrow> json" where
  "implied_label section =
     (if section = ''intentional_differences'' then JStr LABEL_INTENTIONAL
      else if section = ''quirk_needed'' then JStr LABEL_QUIRK_NEEDED
      else JNull)"

fun build_map_loop ::
  "json \<Rightarrow> json list \<Rightarrow> (json \<times> json \<times> json) list \<Rightarrow> error + (json \<times> json \<times> json) list" where
  "build_map_loop implied [] result = Inr result"
| "build_map_loop implied (entry # rest) result =
     and_then (as_dict entry) (\<lambda>e.
       let k = get_or e ''key'' (JStr []);
           reason = get_or e ''reason'' (JStr []);
           l = get_or e ''label'' implied;
           lbl = (if truthy l then l else JStr LABEL_UNKNOWN)
       in if truthy k
          then (if hashable k then build_map_loop implied rest (dict_set result k (lbl, reason))
                else Inl TypeError)
          else build_map_loop implied rest result)"

definition build_map :: "dict \<Rightarrow> string \<Rightarrow> error + (json \<times> json \<times> json) list" where
  "build_map expectations section =
     and_then (py_iter (get_or expectations section (JList []))) (\<lambda>entries.
     build_map_loop (implied_label section) entries [])"

text \<open>
  The inner loop of \<^verbatim>\<open>_classify_diffs\<close> for one entry: the label and reason of the first
  pattern that matches, if any. \<^verbatim>\<open>pattern + "."\<close> raises TypeError for a pattern that is
  not a string.
\<close>

fun first_match :: "string \<Rightarrow> (json \<times> json \<times> json) list \<Rightarrow> error + (json \<times> json) option" where
  "first_match k [] = Inr None"
| "first_match k ((pattern, lr) # rest) =
     (case pattern of
        JStr p \<Rightarrow> if k = p \<or> prefix (p @ ''.'') k then Inr (Some lr) else first_match k rest
      | _ \<Rightarrow> Inl TypeError)"

definition classify_one :: "(json \<times> json \<times> json) list \<Rightarrow> diff_entry \<Rightarrow> error + diff_entry" where
  "classify_one all_patterns d =
     and_then (first_match (key d) all_patterns) (\<lambda>m.
       case m of
         None \<Rightarrow> Inr d
       | Some lr \<Rightarrow> Inr (d\<lparr>label := fst lr, reason := snd lr\<rparr>))"

definition all_patterns_of :: "dict \<Rightarrow> error + (json \<times> json \<times> json) list" where
  "all_patterns_of expectations =
     and_then (build_map expectations ''intentional_differences'') (\<lambda>intentional.
     and_then (build_map expectations ''quirk_needed'') (\<lambda>quirk.
     and_then (build_map expectations ''known_bugs'') (\<lambda>bugs.
     Inr (dict_update (dict_update (dict_update [] intentional) quirk) bugs))))"

definition classify_diffs :: "diff_entry list \<Rightarrow> dict \<Rightarrow> error + diff_entry list" where
  "classify_diffs diffs expectations =
     and_then (all_patterns_of expectations) (\<lambda>all_patterns.
     map_result (classify_one all_patterns) diffs)"

text \<open>\<^verbatim>\<open>_summary_counts\<close>: the count of every label, the five known ones first.\<close>

fun count_loop :: "diff_entry list \<Rightarrow> (json \<times> int) list \<Rightarrow> error + (json \<times> int) list" where
  "count_loop [] counts = Inr counts"
| "count_loop (d # ds) counts =
     (if hashable (label d)
      then count_loop ds (dict_set counts (label d) (lookup_or counts (label d) 0 + 1))
      else Inl TypeError)"

definition summary_counts :: "diff_entry list \<Rightarrow> error + (json \<times> int) list" where
  "summary_counts diffs = count_loop diffs (map (\<lambda>lbl. (JStr lbl, 0)) ALL_LABELS)"

section \<open>The run\<close>

text \<open>
  \<^verbatim>\<open>int(v)\<close> on an overlay value. The reading of a string as an integer literal is the
  parameter \<open>parse_int\<close>; a string that is no literal raises ValueError, a list or a
  dict TypeError.
\<close>

definition py_int :: "(string \<Rightarrow> int option) \<Rightarrow> json \<Rightarrow> error + int" where
  "py_int parse_int v =
     (case v of
        JInt n \<Rightarrow> Inr n
      | JStr s \<Rightarrow> (case parse_int s of Some n \<Rightarrow> Inr n | None \<Rightarrow> Inl ValueError)
      | _ \<Rightarrow> Inl TypeError)"

text \<open>The tolerance of a run: the command line's value unless the overlay overrides it.\<close>

definition resolve_ts_tol :: "(string \<Rightarrow> int option) \<Rightarrow> int \<Rightarrow> dict \<Rightarrow> error + int" where
  "resolve_ts_tol parse_int ts_tolerance expectations =
     and_then (as_dict (get_or expectations ''tolerances'' (JObj []))) (\<lambda>tolerances.
       let overlay_tol = get_none tolerances ''timestamp_seconds''
       in if overlay_tol \<noteq> JNull then py_int parse_int overlay_tol else Inr ts_tolerance)"

text \<open>
  The part of \<^verbatim>\<open>main\<close> between the collection of the raw records and the writing of the
  evidence: overlay tolerance, normalisation, diff, classification.
\<close>

definition main_pipeline ::
  "(json \<Rightarrow> string) \<Rightarrow> (string \<Rightarrow> int option) \<Rightarrow> (string \<Rightarrow> int option) \<Rightarrow> int \<Rightarrow> dict
     \<Rightarrow> dict \<Rightarrow> dict list \<Rightarrow> dict list \<Rightarrow> dict \<Rightarrow> json \<Rightarrow> error + diff_entry list" where
  "main_pipeline fmt parse_int parse_ts ts_tolerance expectations
       libmtp_detect libmtp_folders libmtp_files swiftmtp_probe swiftmtp_ls =
     and_then (resolve_ts_tol parse_int ts_tolerance expectations) (\<lambda>ts_tol.
     and_then (normalise_device libmtp_detect swiftmtp_probe) (\<lambda>devs.
     and_then (normalise_files fmt parse_ts libmtp_files libmtp_folders swiftmtp_ls) (\<lambda>files.
     and_then (diff_files fmt (fst files) (snd files) ts_tol) (\<lambda>file_diffs.
     classify_diffs (diff_device (fst devs) (snd devs) @ file_diffs) expectations))))"

section \<open>Canonical records\<close>

definition canonical_keys :: "string list" where
  "canonical_keys = [''manufacturer'', ''model'', ''firmware'', ''friendly_name'', ''storages'']"

definition storage_keys :: "string list" where
  "storage_keys = [''description'', ''capacity_bytes'']"

definition storages_of :: "dict \<Rightarrow> json list" where
  "storages_of d = (case map_of d ''storages'' of Some (JList ss) \<Rightarrow> ss | _ \<Rightarrow> [])"

fun field_names :: "json \<Rightarrow> string list" where
  "field_names (JObj d) = map fst d"
| "field_names v = []"

text \<open>A canonical device record: the five keys, and storages of two keys each.\<close>

definition canonical_device :: "dict \<Rightarrow> bool" where
  "canonical_device d =
     (map fst d = canonical_keys \<and>
      list_all (\<lambda>s. field_names s = storage_keys) (storages_of d))"





section \<open>Overlay contents\<close>

definition section_names :: "string list" where
  "section_names = [''intentional_differences'', ''quirk_needed'', ''known_bugs'']"

text \<open>The labels that the entries of the three overlay sections declare.\<close>

fun entry_labels :: "json \<Rightarrow> json list" where
  "entry_labels (JObj e) = (case map_of e ''label'' of Some l \<Rightarrow> [l] | None \<Rightarrow> [])"
| "entry_labels v = []"

definition section_entries :: "dict \<Rightarrow> string \<Rightarrow> json list" where
  "section_entries expectations section =
     (case py_iter (get_or expectations section (JList [])) of Inr es \<Rightarrow> es | Inl e \<Rightarrow> [])"

definition declared_labels :: "dict \<Rightarrow> json list" where
  "declared_labels expectations =
     concat (map (\<lambda>s. concat (map entry_labels (section_entries expectations s))) section_names)"

definition closed_labels :: "json list" where
  "closed_labels = map JStr ALL_LABELS"

text \<open>The match test of \<^verbatim>\<open>_classify_diffs\<close> for a string pattern.\<close>

definition matches :: "string \<Rightarrow> string \<Rightarrow> bool" where
  "matches p k = (k = p \<or> prefix (p @ ''.'') k)"

fun entry_key :: "json \<Rightarrow> json" where
  "entry_key (JObj e) = get_or e ''key'' (JStr [])"
| "entry_key v = JNull"

text \<open>
  A well-formed overlay: each of the three sections is absent or a list of dicts whose
  key, when there is one, is a string.
\<close>

definition section_ok :: "dict \<Rightarrow> string \<Rightarrow> bool" where
  "section_ok expectations section =
     (case get_or expectations section (JList []) of
        JList es \<Rightarrow> list_all (\<lambda>x. case x of JObj e \<Rightarrow> is_str (entry_key x) | _ \<Rightarrow> False) es
      | _ \<Rightarrow> False)"

definition overlay_ok :: "dict \<Rightarrow> bool" where
  "overlay_ok expectations = list_all (section_ok expectations) section_names"

definition str_keys :: "(json \<times> 'v) list \<Rightarrow> bool" where
  "str_keys m = list_all (\<lambda>kv. is_str (fst kv)) m"

text \<open>The pattern that decides an entry: the first one, in the order of the map, that matches.\<close>

definition winning_pattern :: "string \<Rightarrow> (json \<times> 'v) list \<Rightarrow> json option" where
  "winning_pattern k ps = map_option fst (find (\<lambda>kv. matches (str_of (fst kv)) k) ps)"

text \<open>
  The patterns of a section in the order of their declaration, each with the label and
  the reason that \<^verbatim>\<open>_build_map\<close> computes for it.
\<close>

fun entry_item :: "json \<Rightarrow> json \<Rightarrow> (json \<times> json \<times> json) list" where
  "entry_item implied (JObj e) =
     (if truthy (get_or e ''key'' (JStr []))
      then [(get_or e ''key'' (JStr []),
             if truthy (get_or e ''label'' implied) then get_or e ''label'' implied
             else JStr LABEL_UNKNOWN,
             get_or e ''reason'' (JStr []))]
      else [])"
| "entry_item implied v = []"

definition section_items :: "dict \<Rightarrow> string \<Rightarrow> (json \<times> json \<times> json) list" where
  "section_items expectations section =
     concat (map (entry_item (implied_label section)) (section_entries expectations section))"

definition overlay_items :: "dict \<Rightarrow> (json \<times> json \<times> json) list" where
  "overlay_items expectations = concat (map (section_items expectations) section_names)"

text \<open>
  Records as the parsers of the libmtp side produce them: integer ids, string names.
\<close>

definition folder_ok :: "dict \<Rightarrow> bool" where
  "folder_ok f =
     (is_int (get_or f ''id'' (JInt 0)) \<and> is_int (get_or f ''parent_id'' (JInt 0)) \<and>
      is_str (get_or f ''name'' (JStr [])))"

definition file_ok :: "dict \<Rightarrow> bool" where
  "file_ok f =
     (is_int (get_or f ''parent_id'' (JInt 0)) \<and> is_str (get_or f ''name'' (JStr [])))"



section \<open>Example records\<close>






definition ex_detect :: dict where
  "ex_detect =
     [(''devices'', JList [JObj
        [(''index'', JInt 0), (''vid'', JStr ''18d1''), (''pid'', JStr ''4ee1''),
         (''storages'', JList [JObj
            [(''id'', JInt 0), (''description'', JStr ''Internal''),
             (''capacity_bytes'', JInt 64000), (''free_bytes'', JInt 1234)]]),
         (''manufacturer'', JStr ''Google''), (''model'', JStr ''Pixel''),
         (''serial'', JStr ''0A1B2C3D'')]]),
      (''_source'', JStr ''mtp-detect'')]"

definition ex_probe :: dict where
  "ex_probe =
     [(''manufacturer'', JStr ''Google''), (''model'', JStr ''Pixel''),
      (''friendlyName'', JStr ''My phone''), (''serial'', JStr ''REDACTED''),
      (''storages'', JList [JObj
         [(''description'', JStr ''Internal''), (''capacityBytes'', JInt 64000),
          (''free_bytes'', JInt 99)]])]"

definition ex_canonical :: "string \<Rightarrow> dict" where
  "ex_canonical friendly =
     [(''manufacturer'', JStr ''Google''), (''model'', JStr ''Pixel''),
      (''firmware'', JStr []), (''friendly_name'', JStr friendly),
      (''storages'', JList [JObj
         [(''description'', JStr ''Internal''), (''capacity_bytes'', JInt 64000)]])]"


definition ex_bare :: "string \<Rightarrow> int \<Rightarrow> dict" where
  "ex_bare p s = [(''path'', JStr p), (''size_bytes'', JInt s)]"





definition ex_overlay_label :: dict where
  "ex_overlay_label =
     [(''known_bugs'', JList [JObj [(''key'', JStr ''device.model''), (''label'', JStr ''wontfix'')]])]"

definition ex_overlay_intentional :: dict where
  "ex_overlay_intentional =
     [(''intentional_differences'',
       JList [JObj [(''key'', JStr ''device.friendly_name''), (''reason'', JStr ''redacted'')]])]"

definition ex_labeled :: "string \<Rightarrow> string \<Rightarrow> string \<Rightarrow> diff_entry" where
  "ex_labeled k l r =
     \<lparr>key = k, libmtp_val = JStr ''A'', swiftmtp_val = JStr ''B'', label = JStr l, reason = JStr r\<rparr>"

definition ex_overlay_nolabel :: dict where
  "ex_overlay_nolabel = [(''known_bugs'', JList [JObj [(''key'', JStr ''device.model'')]])]"

definition ex_overlay_reason :: dict where
  "ex_overlay_reason =
     [(''known_bugs'', JList [JObj [(''key'', JStr ''device.model''), (''reason'', JStr ''tracked'')]])]"

definition ex_overlay_two_sections :: dict where
  "ex_overlay_two_sections =
     [(''intentional_differences'',
       JList [JObj [(''key'', JStr ''device.model''), (''reason'', JStr ''by design'')]]),
      (''known_bugs'',
       JList [JObj [(''key'', JStr ''device.model''), (''label'', JStr ''bug_swiftmtp''),
                    (''reason'', JStr ''defect'')]])]"

definition ex_overlay_one_section :: dict where
  "ex_overlay_one_section =
     [(''known_bugs'',
       JList [JObj [(''key'', JStr ''device.model''), (''label'', JStr ''bug_libmtp''),
                    (''reason'', JStr ''first'')],
              JObj [(''key'', JStr ''device.model''), (''label'', JStr ''bug_swiftmtp''),
                    (''reason'', JStr ''second'')]])]"

definition ex_folders :: "dict list" where
  "ex_folders =
     [[(''id'', JInt 2), (''parent_id'', JInt 5), (''name'', JStr ''B'')],
      [(''id'', JInt 5), (''parent_id'', JInt 0), (''name'', JStr ''A'')]]"

definition ex_nested_file :: dict where
  "ex_nested_file =
     [(''id'', JInt 9), (''parent_id'', JInt 2), (''name'', JStr ''f.txt''), (''size_bytes'', JInt 1)]"






section \<open>Properties\<close>

lemma and_then_Inr_iff:
  "and_then r f = Inr y \<longleftrightarrow> (\<exists>v. r = Inr v \<and> f v = Inr y)"
  by (cases r) auto

lemma map_result_Inr_length:
  "map_result f xs = Inr ys \<Longrightarrow> length ys = length xs"
  by (induction xs arbitrary: ys) (auto simp: and_then_Inr_iff)

subsection \<open>Dicts as item lists\<close>

lemma dict_set_mem:
  "kv \<in> set (dict_set m k v) \<Longrightarrow> kv \<in> set m \<or> kv = (k, v)"
  by (induction m) (auto split: if_splits)

lemma map_of_dict_set: "map_of (dict_set m k v) = (map_of m)(k \<mapsto> v)"
  by (induction m) (auto simp: fun_eq_iff)

lemma dict_set_keys:
  "map fst (dict_set m k v) = (if k \<in> set (map fst m) then map fst m else map fst m @ [k])"
  by (induction m) (force split: if_splits)+

lemma dict_set_distinct: "distinct (map fst m) \<Longrightarrow> distinct (map fst (dict_set m k v))"
  by (simp add: dict_set_keys)

lemma dict_update_Nil: "dict_update a [] = a"
  by (simp add: dict_update_def)

lemma dict_update_Cons: "dict_update a (kv # b) = dict_update (dict_set a (fst kv) (snd kv)) b"
  by (simp add: dict_update_def)

lemma dict_update_mem:
  "kv \<in> set (dict_update a b) \<Longrightarrow> kv \<in> set a \<or> kv \<in> set b"
proof (induction b arbitrary: a)
  case Nil
  then show ?case by (simp add: dict_update_Nil)
next
  case (Cons x b)
  from Cons.prems have "kv \<in> set (dict_update (dict_set a (fst x) (snd x)) b)"
    by (simp add: dict_update_Cons)
  from Cons.IH[OF this] show ?case
    by (auto dest!: dict_set_mem)
qed

lemma dict_update_distinct:
  "distinct (map fst a) \<Longrightarrow> distinct (map fst (dict_update a b))"
  by (induction b arbitrary: a) (auto simp: dict_update_Nil dict_update_Cons dict_set_distinct)

subsection \<open>The entries of a file diff\<close>

lemma map_result_concat_mem:
  "map_result f xs = Inr ys \<Longrightarrow>
     e \<in> set (concat ys) \<longleftrightarrow> (\<exists>x\<in>set xs. \<exists>d. f x = Inr d \<and> e \<in> set d)"
  by (induction xs arbitrary: ys) (auto simp: and_then_Inr_iff)


lemma py_sorted_set: "py_sorted kf xs = Inr ys \<Longrightarrow> set ys = set xs"
  by (auto simp: py_sorted_def split: if_splits)

lemma diff_files_unfold:
  assumes "diff_files fmt lib_files swift_files t = Inr ds"
    and "index_files lib_files [] = Inr lib_map"
    and "index_files swift_files [] = Inr swift_map"
  obtains paths dss where "set paths = fst ` set lib_map \<union> fst ` set swift_map"
    and "map_result (diff_path fmt lib_map swift_map t) paths = Inr dss"
    and "ds = concat dss"
proof -
  from assms obtain paths dss where
    p: "py_sorted (\<lambda>p. p) (remdups (map fst lib_map @ map fst swift_map)) = Inr paths"
    and m: "map_result (diff_path fmt lib_map swift_map t) paths = Inr dss"
    and c: "ds = concat dss"
    by (auto simp: diff_files_def and_then_Inr_iff)
  from py_sorted_set[OF p] have "set paths = fst ` set lib_map \<union> fst ` set swift_map"
    by simp
  with m c that show thesis by blast
qed

lemma diff_files_mem:
  assumes "diff_files fmt lib_files swift_files t = Inr ds"
    and "index_files lib_files [] = Inr lib_map"
    and "index_files swift_files [] = Inr swift_map"
  shows "e \<in> set ds \<longleftrightarrow>
     (\<exists>q \<in> fst ` set lib_map \<union> fst ` set swift_map.
        \<exists>d. diff_path fmt lib_map swift_map t q = Inr d \<and> e \<in> set d)"
proof -
  from assms obtain paths dss where
    s: "set paths = fst ` set lib_map \<union> fst ` set swift_map"
    and m: "map_result (diff_path fmt lib_map swift_map t) paths = Inr dss"
    and c: "ds = concat dss"
    by (rule diff_files_unfold)
  show ?thesis
    unfolding c map_result_concat_mem[OF m] s ..
qed




subsection \<open>Timestamp tolerance\<close>



subsection \<open>Absent values\<close>








lemma index_files_path:
  assumes "index_files fs acc = Inr m"
    and "\<forall>p a. map_of acc p = Some a \<longrightarrow> map_of a ''path'' = Some p"
  shows "\<forall>p a. map_of m p = Some a \<longrightarrow> map_of a ''path'' = Some p"
  using assms
proof (induction fs arbitrary: acc)
  case Nil
  then show ?case by simp
next
  case (Cons f fs)
  from Cons.prems(1) obtain p where p: "map_of f ''path'' = Some p"
    and r: "index_files fs (dict_set acc p f) = Inr m"
    by (auto split: option.splits if_splits)
  have "\<forall>q a. map_of (dict_set acc p f) q = Some a \<longrightarrow> map_of a ''path'' = Some q"
    using Cons.prems(2) p by (auto simp: map_of_dict_set)
  from Cons.IH[OF r this] show ?case .
qed











subsection \<open>Excluded fields\<close>

lemma map_result_set:
  "map_result f xs = Inr ys \<Longrightarrow> y \<in> set ys \<Longrightarrow> \<exists>x\<in>set xs. f x = Inr y"
  by (induction xs arbitrary: ys) (auto simp: and_then_Inr_iff)

lemma sorted_storages_keys:
  assumes "sorted_storages storage dev = Inr sts"
    and "\<And>s sd. storage s = Inr sd \<Longrightarrow> map fst sd = storage_keys"
  shows "list_all (\<lambda>s. field_names s = storage_keys) (map JObj sts)"
proof -
  from assms(1) obtain ss sts0 where m: "map_result storage ss = Inr sts0"
    and p: "py_sorted (\<lambda>s. get_or s ''description'' (JStr [])) sts0 = Inr sts"
    by (auto simp: sorted_storages_def and_then_Inr_iff)
  have "map fst sd = storage_keys" if "sd \<in> set sts" for sd
  proof -
    from that py_sorted_set[OF p] have "sd \<in> set sts0" by simp
    with map_result_set[OF m] assms(2) show ?thesis by blast
  qed
  then show ?thesis by (simp add: list_all_iff)
qed

lemma lib_storage_keys: "lib_storage s = Inr sd \<Longrightarrow> map fst sd = storage_keys"
  by (auto simp: lib_storage_def and_then_Inr_iff storage_keys_def)

lemma swift_storage_keys: "swift_storage s = Inr sd \<Longrightarrow> map fst sd = storage_keys"
  by (auto simp: swift_storage_def and_then_Inr_iff storage_keys_def)

lemma norm_lib_canonical: "norm_lib d = Inr n \<Longrightarrow> canonical_device n"
  by (auto simp: norm_lib_def and_then_Inr_iff canonical_device_def canonical_keys_def storages_of_def
      dest!: sorted_storages_keys[OF _ lib_storage_keys])

lemma norm_swift_canonical: "norm_swift d = Inr n \<Longrightarrow> canonical_device n"
  by (auto simp: norm_swift_def and_then_Inr_iff canonical_device_def canonical_keys_def storages_of_def
      dest!: sorted_storages_keys[OF _ swift_storage_keys])

lemma diff_device_keys:
  "e \<in> set (diff_device norm_l norm_s) \<Longrightarrow>
     \<exists>k \<in> set (map fst norm_l) \<union> set (map fst norm_s). key e = ''device.'' @ k"
proof -
  assume "e \<in> set (diff_device norm_l norm_s)"
  then obtain k where k: "k \<in> set (map fst norm_l @ map fst norm_s)"
    and e: "e = DiffEntry (''device.'' @ k) (get_none norm_l k) (get_none norm_s k)"
    by (auto simp: diff_device_def split: if_splits)
  from e have "key e = ''device.'' @ k" by (simp add: DiffEntry_def)
  with k show ?thesis by auto
qed

lemma classify_one_key: "classify_one ps d = Inr d' \<Longrightarrow> key d' = key d"
  by (auto simp: classify_one_def and_then_Inr_iff split: option.splits)

lemma classify_diffs_keys:
  "classify_diffs diffs expectations = Inr ds \<Longrightarrow> map key ds = map key diffs"
proof -
  have "map_result (classify_one ps) xs = Inr ys \<Longrightarrow> map key ys = map key xs" for ps xs ys
    by (induction xs arbitrary: ys) (auto simp: and_then_Inr_iff classify_one_key)
  then show "classify_diffs diffs expectations = Inr ds \<Longrightarrow> map key ds = map key diffs"
    by (auto simp: classify_diffs_def and_then_Inr_iff)
qed

lemma diff_path_keys:
  "diff_path fmt lm sm t q = Inr d \<Longrightarrow> e \<in> set d \<Longrightarrow> prefix ''file.'' (key e)"
  by (auto simp: diff_path_def DiffEntry_def and_then_Inr_iff split: option.splits if_splits)

lemma diff_files_keys:
  assumes "diff_files fmt lf sf t = Inr ds" "e \<in> set ds"
  shows "prefix ''file.'' (key e)"
proof -
  from assms(1) obtain lib_map swift_map where
    i: "index_files lf [] = Inr lib_map" "index_files sf [] = Inr swift_map"
    by (auto simp: diff_files_def and_then_Inr_iff)
  from assms(2) show ?thesis
    unfolding diff_files_mem[OF assms(1) i] using diff_path_keys by blast
qed

lemma canonical_deviceD:
  assumes "canonical_device d"
  shows "map fst d = canonical_keys"
    and "s \<in> set (storages_of d) \<Longrightarrow> field_names s = storage_keys"
  using assms
  by (auto simp: canonical_device_def list_all_iff)

text \<open>
  C4. Whatever the two raw device records hold, each canonical device record has exactly
  the keys manufacturer, model, firmware, friendly_name and storages, and each of its
  storages exactly description and capacity_bytes: the serial number and the free space
  are in neither. The device diff therefore has only keys \<^verbatim>\<open>device.<k>\<close> for these five
  \<open>k\<close>, and every entry of a whole run has such a key or a \<^verbatim>\<open>file.\<close> key.
\<close>

theorem exclusion_guarantee:
  assumes "normalise_device libmtp_detect swiftmtp_probe = Inr (norm_l, norm_s)"
  shows "map fst norm_l = canonical_keys \<and> map fst norm_s = canonical_keys \<and>
         (\<forall>s \<in> set (storages_of norm_l) \<union> set (storages_of norm_s).
            field_names s = storage_keys) \<and>
         ''serial'' \<notin> set (map fst norm_l) \<and> ''serial'' \<notin> set (map fst norm_s) \<and>
         (\<forall>s \<in> set (storages_of norm_l) \<union> set (storages_of norm_s).
            ''free_bytes'' \<notin> set (field_names s)) \<and>
         (\<forall>e \<in> set (diff_device norm_l norm_s).
            key e \<in> set (map (\<lambda>k. ''device.'' @ k) canonical_keys)) \<and>
         (\<forall>ds. main_pipeline fmt parse_int parse_ts ts_tolerance expectations
                  libmtp_detect libmtp_folders libmtp_files swiftmtp_probe swiftmtp_ls = Inr ds
            \<longrightarrow> (\<forall>e \<in> set ds. key e \<in> set (map (\<lambda>k. ''device.'' @ k) canonical_keys)
                                 \<or> prefix ''file.'' (key e)))"
proof -
  from assms have c: "canonical_device norm_l" "canonical_device norm_s"
    by (auto simp: normalise_device_def and_then_Inr_iff
        dest: norm_lib_canonical norm_swift_canonical)
  note k = canonical_deviceD(1)[OF c(1)] canonical_deviceD(1)[OF c(2)]
  have st: "\<forall>s \<in> set (storages_of norm_l) \<union> set (storages_of norm_s).
            field_names s = storage_keys"
    using canonical_deviceD(2)[OF c(1)] canonical_deviceD(2)[OF c(2)] by blast
  have dk: "key e \<in> set (map (\<lambda>k. ''device.'' @ k) canonical_keys)"
    if "e \<in> set (diff_device norm_l norm_s)" for e
    using diff_device_keys[OF that] k by auto
  have pk: "key e \<in> set (map (\<lambda>k. ''device.'' @ k) canonical_keys) \<or> prefix ''file.'' (key e)"
    if r: "main_pipeline fmt parse_int parse_ts ts_tolerance expectations
                  libmtp_detect libmtp_folders libmtp_files swiftmtp_probe swiftmtp_ls = Inr ds"
      and e: "e \<in> set ds" for ds e
  proof -
    from r assms obtain lf sf t fd where
      f: "diff_files fmt lf sf t = Inr fd"
      and cl: "classify_diffs (diff_device norm_l norm_s @ fd) expectations = Inr ds"
      by (auto simp: main_pipeline_def and_then_Inr_iff)
    from classify_diffs_keys[OF cl] e
    have "key e \<in> key ` set (diff_device norm_l norm_s) \<union> key ` set fd"
      by (metis image_Un image_eqI list.set_map set_append)
    then show ?thesis using dk diff_files_keys[OF f] by auto
  qed
  from k st dk pk show ?thesis
    by (auto simp: canonical_keys_def storage_keys_def)
qed

lemmas norm_eval = normalise_device_def norm_lib_def norm_swift_def sorted_storages_def
  lib_storage_def swift_storage_def py_sorted_def get_or_def

theorem exclusion_guarantee_witness:
  "normalise_device ex_detect ex_probe = Inr (ex_canonical [], ex_canonical ''My phone'') \<and>
   ''serial'' \<notin> set (map fst (ex_canonical [])) \<and>
   ''serial'' \<notin> set (map fst (ex_canonical ''My phone'')) \<and>
   diff_device (ex_canonical []) (ex_canonical ''My phone'')
     = [DiffEntry ''device.friendly_name'' (JStr []) (JStr ''My phone'')] \<and>
   ''device.friendly_name'' \<in> set (map (\<lambda>k. ''device.'' @ k) canonical_keys)"
proof -
  have n: "normalise_device ex_detect ex_probe = Inr (ex_canonical [], ex_canonical ''My phone'')"
    by (simp add: norm_eval ex_detect_def ex_probe_def ex_canonical_def)
  have d: "diff_device (ex_canonical []) (ex_canonical ''My phone'')
     = [DiffEntry ''device.friendly_name'' (JStr []) (JStr ''My phone'')]"
    by (simp add: diff_device_def ex_canonical_def get_none_def get_or_def)
  from exclusion_guarantee[OF n] have
    "''serial'' \<notin> set (map fst (ex_canonical []))"
    "''serial'' \<notin> set (map fst (ex_canonical ''My phone''))"
    by blast+
  moreover have "''device.friendly_name'' \<in> set (map (\<lambda>k. ''device.'' @ k) canonical_keys)"
    by (simp add: canonical_keys_def)
  ultimately show ?thesis using n d by simp
qed

subsection \<open>Missing data\<close>











subsection \<open>Tolerance override\<close>


lemmas classify_eval = classify_diffs_def all_patterns_of_def build_map_def dict_update_def
  classify_one_def implied_label_def








subsection \<open>Labels of the pattern map\<close>

lemma implied_label_closed:
  "truthy (implied_label s) \<Longrightarrow> implied_label s \<in> set closed_labels"
  by (auto simp: implied_label_def closed_labels_def ALL_LABELS_def split: if_splits)

lemma unknown_closed: "JStr LABEL_UNKNOWN \<in> set closed_labels"
  by (simp add: closed_labels_def ALL_LABELS_def)

lemma build_map_loop_labels:
  assumes "build_map_loop implied es acc = Inr r"
    and "truthy implied \<Longrightarrow> implied \<in> L"
    and "JStr LABEL_UNKNOWN \<in> L"
    and "\<forall>kv \<in> set acc. fst (snd kv) \<in> L"
    and "\<forall>e \<in> set es. set (entry_labels e) \<subseteq> L"
  shows "\<forall>kv \<in> set r. fst (snd kv) \<in> L"
  using assms
proof (induction es arbitrary: acc)
  case Nil
  then show ?case by simp
next
  case (Cons e es)
  from Cons.prems(1) obtain ed where e: "e = JObj ed"
    by (cases e) auto
  let ?l = "get_or ed ''label'' implied"
  let ?lbl = "if truthy ?l then ?l else JStr LABEL_UNKNOWN"
  have lbl: "?lbl \<in> L"
  proof (cases "map_of ed ''label''")
    case None
    then have "?l = implied" by (simp add: get_or_def)
    with Cons.prems(2,3) show ?thesis by auto
  next
    case (Some l)
    then have "?l = l" by (simp add: get_or_def)
    moreover from Some Cons.prems(5) e have "l \<in> L" by simp
    ultimately show ?thesis using Cons.prems(3) by auto
  qed
  show ?case
  proof (cases "truthy (get_or ed ''key'' (JStr []))")
    case True
    with Cons.prems(1) e have
      r: "build_map_loop implied es
            (dict_set acc (get_or ed ''key'' (JStr [])) (?lbl, get_or ed ''reason'' (JStr []))) = Inr r"
      by (auto simp: Let_def split: if_splits)
    have "\<forall>kv \<in> set (dict_set acc (get_or ed ''key'' (JStr []))
             (?lbl, get_or ed ''reason'' (JStr []))). fst (snd kv) \<in> L"
      using Cons.prems(4) lbl by (auto dest!: dict_set_mem)
    with Cons.IH[OF r Cons.prems(2,3)] Cons.prems(5) show ?thesis by simp
  next
    case False
    with Cons.prems(1) e have r: "build_map_loop implied es acc = Inr r"
      by (auto simp: Let_def)
    with Cons.IH[OF r Cons.prems(2,3,4)] Cons.prems(5) show ?thesis by simp
  qed
qed

lemma build_map_labels:
  assumes "build_map expectations s = Inr r" and "s \<in> set section_names"
  shows "\<forall>kv \<in> set r. fst (snd kv) \<in> set closed_labels \<union> set (declared_labels expectations)"
proof -
  from assms(1) obtain es where
    es: "py_iter (get_or expectations s (JList [])) = Inr es"
    and r: "build_map_loop (implied_label s) es [] = Inr r"
    by (auto simp: build_map_def and_then_Inr_iff)
  from es have "section_entries expectations s = es"
    by (simp add: section_entries_def)
  with assms(2) have "\<forall>e \<in> set es. set (entry_labels e) \<subseteq> set (declared_labels expectations)"
    by (auto simp: declared_labels_def)
  then have "\<forall>e \<in> set es.
      set (entry_labels e) \<subseteq> set closed_labels \<union> set (declared_labels expectations)"
    by blast
  with build_map_loop_labels[OF r, of "set closed_labels \<union> set (declared_labels expectations)"]
  show ?thesis
    using implied_label_closed unknown_closed by auto
qed

lemma all_patterns_labels:
  assumes "all_patterns_of expectations = Inr ps"
  shows "\<forall>kv \<in> set ps. fst (snd kv) \<in> set closed_labels \<union> set (declared_labels expectations)"
proof -
  from assms obtain i q b where
    i: "build_map expectations ''intentional_differences'' = Inr i"
    and q: "build_map expectations ''quirk_needed'' = Inr q"
    and b: "build_map expectations ''known_bugs'' = Inr b"
    and ps: "ps = dict_update (dict_update (dict_update [] i) q) b"
    by (auto simp: all_patterns_of_def and_then_Inr_iff)
  have "kv \<in> set i \<or> kv \<in> set q \<or> kv \<in> set b" if "kv \<in> set ps" for kv
    using that unfolding ps by (auto dest!: dict_update_mem)
  moreover have "\<forall>kv \<in> set i. fst (snd kv) \<in> set closed_labels \<union> set (declared_labels expectations)"
    "\<forall>kv \<in> set q. fst (snd kv) \<in> set closed_labels \<union> set (declared_labels expectations)"
    "\<forall>kv \<in> set b. fst (snd kv) \<in> set closed_labels \<union> set (declared_labels expectations)"
    using build_map_labels[OF i] build_map_labels[OF q] build_map_labels[OF b]
    by (simp_all add: section_names_def)
  ultimately show ?thesis by blast
qed

lemma first_match_mem: "first_match k ps = Inr (Some lr) \<Longrightarrow> \<exists>p. (p, lr) \<in> set ps"
  by (induction ps) (auto split: json.splits if_splits)

lemma classify_one_label:
  assumes "classify_one ps d = Inr d'"
  shows "label d' = label d \<or> (\<exists>p lr. (p, lr) \<in> set ps \<and> label d' = fst lr)"
  using assms
  by (auto simp: classify_one_def and_then_Inr_iff split: option.splits dest!: first_match_mem)

lemma count_loop_keys:
  "count_loop ds counts = Inr r \<Longrightarrow> set (map fst r) = set (map fst counts) \<union> label ` set ds"
proof (induction ds arbitrary: counts)
  case Nil
  then show ?case by simp
next
  case (Cons d ds)
  from Cons.prems have
    "count_loop ds (dict_set counts (label d) (lookup_or counts (label d) 0 + 1)) = Inr r"
    by (auto split: if_splits)
  from Cons.IH[OF this] show ?case
    by (auto simp: dict_set_keys split: if_splits)
qed

lemma summary_counts_keys:
  "summary_counts ds = Inr counts \<Longrightarrow> set (map fst counts) = set closed_labels \<union> label ` set ds"
proof -
  assume "summary_counts ds = Inr counts"
  then have "count_loop ds (map (\<lambda>lbl. (JStr lbl, 0)) ALL_LABELS) = Inr counts"
    by (simp add: summary_counts_def)
  from count_loop_keys[OF this] show ?thesis
    by (simp add: closed_labels_def comp_def)
qed

lemma classified_label_origin:
  assumes "classify_diffs diffs expectations = Inr ds" and "d' \<in> set ds"
  shows "label d' \<in> label ` set diffs \<union> set closed_labels \<union> set (declared_labels expectations)"
proof -
  from assms(1) obtain ps where ps: "all_patterns_of expectations = Inr ps"
    and m: "map_result (classify_one ps) diffs = Inr ds"
    by (auto simp: classify_diffs_def and_then_Inr_iff)
  from map_result_set[OF m assms(2)] obtain d where d: "d \<in> set diffs"
    and c: "classify_one ps d = Inr d'" by blast
  from classify_one_label[OF c] all_patterns_labels[OF ps] d show ?thesis
    by fastforce
qed

text \<open>
  C7, as stated, fails: a known_bugs entry that declares the label \<^verbatim>\<open>wontfix\<close> puts that
  label on the entry it matches and adds a sixth row to the summary.
\<close>

theorem closed_label_set_counterexample:
  "classify_diffs [DiffEntry ''device.model'' (JStr ''A'') (JStr ''B'')] ex_overlay_label
     = Inr [\<lparr>key = ''device.model'', libmtp_val = JStr ''A'', swiftmtp_val = JStr ''B'',
             label = JStr ''wontfix'', reason = JStr []\<rparr>] \<and>
   JStr ''wontfix'' \<notin> set closed_labels \<and>
   summary_counts [\<lparr>key = ''device.model'', libmtp_val = JStr ''A'', swiftmtp_val = JStr ''B'',
             label = JStr ''wontfix'', reason = JStr []\<rparr>]
     = Inr [(JStr ''bug_swiftmtp'', 0), (JStr ''bug_libmtp'', 0), (JStr ''intentional'', 0),
            (JStr ''quirk_needed'', 0), (JStr ''unknown'', 0), (JStr ''wontfix'', 1)]"
  by (simp add: classify_eval classify_one_def get_or_def ex_overlay_label_def DiffEntry_def
      closed_labels_def ALL_LABELS_def summary_counts_def lookup_or_def
      LABEL_BUG_SWIFTMTP_def LABEL_BUG_LIBMTP_def LABEL_INTENTIONAL_def LABEL_QUIRK_NEEDED_def
      LABEL_UNKNOWN_def)

text \<open>
  C7, amended. After classification the label of an entry is the label it had, one of
  the five known labels, or a label value declared by an entry of the overlay; the
  summary counts the five known labels and every label that occurs. When the overlay
  declares only labels of the five and the entries come to classification with labels of
  the five (the diff engine gives every entry the label \<^verbatim>\<open>unknown\<close>), every label is one
  of the five and the summary has exactly the five rows.
\<close>

theorem classified_labels:
  assumes "classify_diffs diffs expectations = Inr ds"
  shows "(\<forall>d \<in> set ds. label d \<in> label ` set diffs \<union> set closed_labels
                            \<union> set (declared_labels expectations)) \<and>
         (\<forall>counts. summary_counts ds = Inr counts \<longrightarrow>
            set (map fst counts) = set closed_labels \<union> label ` set ds) \<and>
         (set (declared_labels expectations) \<subseteq> set closed_labels \<and>
          label ` set diffs \<subseteq> set closed_labels \<longrightarrow>
            (\<forall>d \<in> set ds. label d \<in> set closed_labels) \<and>
            (\<forall>counts. summary_counts ds = Inr counts \<longrightarrow>
               set (map fst counts) = set closed_labels))"
proof (intro conjI impI ballI allI)
  fix d assume "d \<in> set ds"
  then show "label d \<in> label ` set diffs \<union> set closed_labels
                            \<union> set (declared_labels expectations)"
    by (rule classified_label_origin[OF assms])
next
  fix counts assume "summary_counts ds = Inr counts"
  then show "set (map fst counts) = set closed_labels \<union> label ` set ds"
    by (rule summary_counts_keys)
next
  fix d
  assume c: "set (declared_labels expectations) \<subseteq> set closed_labels \<and>
          label ` set diffs \<subseteq> set closed_labels" and d: "d \<in> set ds"
  from classified_label_origin[OF assms d] c show "label d \<in> set closed_labels"
    by blast
next
  fix counts
  assume c: "set (declared_labels expectations) \<subseteq> set closed_labels \<and>
          label ` set diffs \<subseteq> set closed_labels"
    and s: "summary_counts ds = Inr counts"
  have "label ` set ds \<subseteq> set closed_labels"
    using classified_label_origin[OF assms] c by blast
  with summary_counts_keys[OF s] show "set (map fst counts) = set closed_labels"
    by blast
qed

lemma ex_classify_intentional:
  "classify_diffs [DiffEntry ''device.friendly_name'' (JStr ''A'') (JStr ''B'')] ex_overlay_intentional
     = Inr [ex_labeled ''device.friendly_name'' ''intentional'' ''redacted'']"
  by (simp add: classify_eval classify_one_def get_or_def ex_overlay_intentional_def
      DiffEntry_def ex_labeled_def LABEL_INTENTIONAL_def)

theorem classified_labels_witness:
  "classify_diffs [DiffEntry ''device.friendly_name'' (JStr ''A'') (JStr ''B'')] ex_overlay_intentional
     = Inr [ex_labeled ''device.friendly_name'' ''intentional'' ''redacted''] \<and>
   set (declared_labels ex_overlay_intentional) \<subseteq> set closed_labels \<and>
   label (DiffEntry ''device.friendly_name'' (JStr ''A'') (JStr ''B'')) \<in> set closed_labels \<and>
   label (ex_labeled ''device.friendly_name'' ''intentional'' ''redacted'') \<in> set closed_labels"
proof -
  have d: "set (declared_labels ex_overlay_intentional) \<subseteq> set closed_labels"
    by (simp add: declared_labels_def section_names_def section_entries_def get_or_def
        ex_overlay_intentional_def)
  have u: "label (DiffEntry ''device.friendly_name'' (JStr ''A'') (JStr ''B'')) \<in> set closed_labels"
    by (simp add: DiffEntry_def unknown_closed)
  then have i: "label ` set [DiffEntry ''device.friendly_name'' (JStr ''A'') (JStr ''B'')]
      \<subseteq> set closed_labels" by simp
  from classified_labels[OF ex_classify_intentional] d i
  have "label (ex_labeled ''device.friendly_name'' ''intentional'' ''redacted'') \<in> set closed_labels"
    by simp
  with ex_classify_intentional d u show ?thesis by simp
qed

subsection \<open>Matching\<close>

lemma first_match_total: "str_keys ps \<Longrightarrow> \<exists>m. first_match k ps = Inr m"
proof (induction ps)
  case Nil
  then show ?case by simp
next
  case (Cons a ps)
  obtain q lr where a: "a = (q, lr)" by (cases a)
  with Cons.prems obtain p where q: "q = JStr p"
    by (cases q) (auto simp: str_keys_def)
  from Cons show ?case unfolding a q
    by (auto simp: str_keys_def)
qed

lemma map_result_total:
  "(\<And>x. x \<in> set xs \<Longrightarrow> \<exists>y. f x = Inr y) \<Longrightarrow> \<exists>ys. map_result f xs = Inr ys"
proof (induction xs)
  case Nil
  then show ?case by simp
next
  case (Cons x xs)
  then obtain y ys where "f x = Inr y" "map_result f xs = Inr ys"
    by (metis list.set_intros(1,2))
  then show ?case by simp
qed

lemma classify_one_total: "str_keys ps \<Longrightarrow> \<exists>d'. classify_one ps d = Inr d'"
  using first_match_total[of ps "key d"]
  by (auto simp: classify_one_def split: option.splits)

subsection \<open>The pattern map of a section\<close>

lemma build_map_loop_step:
  "build_map_loop implied (JObj e # rest) acc =
     (if truthy (get_or e ''key'' (JStr []))
      then (if hashable (get_or e ''key'' (JStr []))
            then build_map_loop implied rest
                   (dict_set acc (get_or e ''key'' (JStr []))
                      (if truthy (get_or e ''label'' implied) then get_or e ''label'' implied
                       else JStr LABEL_UNKNOWN,
                       get_or e ''reason'' (JStr [])))
            else Inl TypeError)
      else build_map_loop implied rest acc)"
  by (simp add: Let_def)

lemma build_map_loop_append:
  "build_map_loop implied (es1 @ es2) acc =
     and_then (build_map_loop implied es1 acc) (\<lambda>r. build_map_loop implied es2 r)"
proof (induction es1 arbitrary: acc)
  case Nil
  then show ?case by simp
next
  case (Cons e es1)
  show ?case
  proof (cases e)
    case (JObj ed)
    show ?thesis unfolding JObj append_Cons build_map_loop_step
      by (simp add: Cons.IH)
  qed simp_all
qed

lemma build_map_loop_other_key:
  assumes "build_map_loop implied es acc = Inr r" and "list_all (\<lambda>x. entry_key x \<noteq> k) es"
  shows "map_of r k = map_of acc k"
  using assms
proof (induction es arbitrary: acc)
  case Nil
  then show ?case by simp
next
  case (Cons e es)
  from Cons.prems(1) obtain ed where e: "e = JObj ed" by (cases e) auto
  from Cons.prems(2) e have ne: "get_or ed ''key'' (JStr []) \<noteq> k" and rest: "list_all (\<lambda>x. entry_key x \<noteq> k) es"
    by simp_all
  show ?case
  proof (cases "truthy (get_or ed ''key'' (JStr []))")
    case True
    with Cons.prems(1) obtain v where
      r: "build_map_loop implied es (dict_set acc (get_or ed ''key'' (JStr [])) v) = Inr r"
      unfolding e build_map_loop_step by (auto split: if_splits)
    from Cons.IH[OF r rest] ne show ?thesis
      by (simp add: map_of_dict_set)
  next
    case False
    with Cons.prems(1) have "build_map_loop implied es acc = Inr r"
      unfolding e build_map_loop_step by simp
    from Cons.IH[OF this rest] show ?thesis .
  qed
qed

lemma build_map_loop_ok:
  assumes "list_all (\<lambda>x. case x of JObj e \<Rightarrow> is_str (entry_key x) | _ \<Rightarrow> False) es"
    and "str_keys acc" and "distinct (map fst acc)"
  shows "\<exists>r. build_map_loop implied es acc = Inr r \<and> str_keys r \<and> distinct (map fst r)"
  using assms
proof (induction es arbitrary: acc)
  case Nil
  then show ?case by simp
next
  case (Cons e es)
  from Cons.prems(1) obtain ed where e: "e = JObj ed" by (cases e) auto
  with Cons.prems(1) have s: "is_str (get_or ed ''key'' (JStr []))"
    and rest: "list_all (\<lambda>x. case x of JObj e \<Rightarrow> is_str (entry_key x) | _ \<Rightarrow> False) es"
    by simp_all
  from s obtain p where p: "get_or ed ''key'' (JStr []) = JStr p"
    by (cases "get_or ed ''key'' (JStr [])") auto
  show ?case
  proof (cases "p = []")
    case True
    with p Cons.IH[OF rest Cons.prems(2,3)] show ?thesis
      unfolding e build_map_loop_step by simp
  next
    case False
    have "str_keys (dict_set acc (JStr p) v)" for v
      using Cons.prems(2) by (auto simp: str_keys_def list_all_iff dest!: dict_set_mem)
    moreover have "distinct (map fst (dict_set acc (JStr p) v))" for v
      using Cons.prems(3) by (rule dict_set_distinct)
    ultimately show ?thesis
      unfolding e build_map_loop_step using p False Cons.IH[OF rest] by simp
  qed
qed

lemma build_map_ok:
  assumes "section_ok expectations s"
  shows "\<exists>r. build_map expectations s = Inr r \<and> str_keys r \<and> distinct (map fst r)"
proof -
  from assms obtain es where es: "get_or expectations s (JList []) = JList es"
    and ok: "list_all (\<lambda>x. case x of JObj e \<Rightarrow> is_str (entry_key x) | _ \<Rightarrow> False) es"
    by (auto simp: section_ok_def split: json.splits)
  from build_map_loop_ok[OF ok, of "[]" "implied_label s"] es show ?thesis
    by (simp add: build_map_def str_keys_def)
qed

lemma first_match_find:
  "str_keys ps \<Longrightarrow>
     first_match k ps = Inr (map_option snd (find (\<lambda>kv. matches (str_of (fst kv)) k) ps))"
proof (induction ps)
  case Nil
  then show ?case by simp
next
  case (Cons a ps)
  obtain q lr where a: "a = (q, lr)" by (cases a)
  with Cons.prems obtain p where q: "q = JStr p"
    by (cases q) (auto simp: str_keys_def)
  from Cons show ?case unfolding a q
    by (simp add: str_keys_def matches_def)
qed

lemma classify_one_winner:
  assumes "str_keys ps" and "distinct (map fst ps)"
    and "winning_pattern (key d) ps = Some q" and "map_of ps q = Some lr"
  shows "classify_one ps d = Inr (d\<lparr>label := fst lr, reason := snd lr\<rparr>)"
proof -
  from assms(3) obtain v where f: "find (\<lambda>kv. matches (str_of (fst kv)) (key d)) ps = Some (q, v)"
    by (auto simp: winning_pattern_def)
  then have "(q, v) \<in> set ps"
    by (auto simp: find_Some_iff)
  with assms(2,4) have "v = lr" by simp
  with f first_match_find[OF assms(1), of "key d"] show ?thesis
    by (simp add: classify_one_def)
qed

lemma map_result_nth:
  "map_result f xs = Inr ys \<Longrightarrow> i < length xs \<Longrightarrow> f (xs ! i) = Inr (ys ! i)"
proof (induction xs arbitrary: ys i)
  case Nil
  then show ?case by simp
next
  case (Cons x xs)
  then show ?case
    by (cases i) (auto simp: and_then_Inr_iff)
qed

lemma dict_update_other_key:
  "k \<notin> fst ` set b \<Longrightarrow> map_of (dict_update a b) k = map_of a k"
  by (induction b arbitrary: a)
     (auto simp: dict_update_Nil dict_update_Cons map_of_dict_set)

lemma dict_update_last:
  "distinct (map fst b) \<Longrightarrow> map_of b k = Some v \<Longrightarrow> map_of (dict_update a b) k = Some v"
proof (induction b arbitrary: a)
  case Nil
  then show ?case by simp
next
  case (Cons x b)
  show ?case
  proof (cases "fst x = k")
    case True
    with Cons.prems have "k \<notin> fst ` set b" "v = snd x" by (auto simp: rev_image_eqI)
    then show ?thesis
      using True by (simp add: dict_update_Cons dict_update_other_key map_of_dict_set)
  next
    case False
    with Cons.prems have "distinct (map fst b)" "map_of b k = Some v"
      by (auto split: if_splits)
    from Cons.IH[OF this] show ?thesis by (simp add: dict_update_Cons)
  qed
qed

lemma dict_update_str_keys: "str_keys a \<Longrightarrow> str_keys b \<Longrightarrow> str_keys (dict_update a b)"
  by (auto simp: str_keys_def list_all_iff dest!: dict_update_mem)

lemma all_patterns_ok:
  assumes "overlay_ok expectations"
  shows "\<exists>ps bugs. all_patterns_of expectations = Inr ps \<and>
     build_map expectations ''known_bugs'' = Inr bugs \<and>
     str_keys ps \<and> distinct (map fst ps) \<and>
     (\<forall>k v. map_of bugs k = Some v \<longrightarrow> map_of ps k = Some v)"
proof -
  from assms have ok: "section_ok expectations ''intentional_differences''"
    "section_ok expectations ''quirk_needed''" "section_ok expectations ''known_bugs''"
    by (simp_all add: overlay_ok_def section_names_def)
  from build_map_ok[OF ok(1)] obtain i where
    i: "build_map expectations ''intentional_differences'' = Inr i" "str_keys i" by blast
  from build_map_ok[OF ok(2)] obtain q where
    q: "build_map expectations ''quirk_needed'' = Inr q" "str_keys q" by blast
  from build_map_ok[OF ok(3)] obtain b where
    b: "build_map expectations ''known_bugs'' = Inr b" "str_keys b" "distinct (map fst b)"
    by blast
  let ?ps = "dict_update (dict_update (dict_update [] i) q) b"
  have "all_patterns_of expectations = Inr ?ps"
    by (simp add: all_patterns_of_def i q b)
  moreover have "str_keys ?ps"
    using i(2) q(2) b(2) by (intro dict_update_str_keys) (simp_all add: str_keys_def)
  moreover have "distinct (map fst ?ps)"
    by (intro dict_update_distinct) simp
  moreover have "map_of ?ps k = Some v" if "map_of b k = Some v" for k v
    using dict_update_last[OF b(3) that] .
  ultimately show ?thesis using b(1) by blast
qed

lemma known_bugs_unlabelled_value:
  assumes "build_map expectations ''known_bugs'' = Inr bugs"
    and "get_or expectations ''known_bugs'' (JList []) = JList (es1 @ JObj e # es2)"
    and "map_of e ''key'' = Some (JStr p)" and "p \<noteq> []" and "map_of e ''label'' = None"
    and "list_all (\<lambda>x. entry_key x \<noteq> JStr p) es2"
  shows "map_of bugs (JStr p) = Some (JStr LABEL_UNKNOWN, get_or e ''reason'' (JStr []))"
proof -
  from assms(1,2) have "build_map_loop JNull (es1 @ JObj e # es2) [] = Inr bugs"
    by (simp add: build_map_def implied_label_def)
  then obtain r1 where "build_map_loop JNull (JObj e # es2) r1 = Inr bugs"
    unfolding build_map_loop_append by (auto simp: and_then_Inr_iff)
  with assms(3,4,5) have
    "build_map_loop JNull es2
       (dict_set r1 (JStr p) (JStr LABEL_UNKNOWN, get_or e ''reason'' (JStr []))) = Inr bugs"
    unfolding build_map_loop_step by (simp add: get_or_def)
  from build_map_loop_other_key[OF this assms(6)] show ?thesis
    by (simp add: map_of_dict_set)
qed

subsection \<open>Known bugs without a label\<close>

text \<open>
  C8, as stated, fails: the entry matched by a known_bugs pattern that has neither label
  nor reason is labelled \<^verbatim>\<open>unknown\<close> with the empty reason. Nothing records why.
\<close>

theorem known_bug_reason_counterexample:
  "map_of [(''key'', JStr ''device.model'')] ''label'' = None \<and>
   classify_diffs [DiffEntry ''device.model'' (JStr ''A'') (JStr ''B'')] ex_overlay_nolabel
     = Inr [ex_labeled ''device.model'' ''unknown'' []]"
  by (simp add: classify_eval classify_one_def get_or_def ex_overlay_nolabel_def
      DiffEntry_def ex_labeled_def LABEL_UNKNOWN_def)

text \<open>
  C8, amended. In a well-formed overlay, take a known_bugs entry without a label whose
  pattern is a non-empty string that no later known_bugs entry repeats. Building the
  pattern map and classification do not raise, the result has one entry for each entry
  of the diff, the map gives the pattern the label \<^verbatim>\<open>unknown\<close> and the reason that the
  overlay entry declares, the empty string when it declares none, and every entry of
  the diff that this pattern decides gets that label and that reason.
\<close>

theorem known_bug_without_label:
  assumes "overlay_ok expectations"
    and "get_or expectations ''known_bugs'' (JList []) = JList (es1 @ JObj e # es2)"
    and "map_of e ''key'' = Some (JStr p)" and "p \<noteq> []" and "map_of e ''label'' = None"
    and "list_all (\<lambda>x. entry_key x \<noteq> JStr p) es2"
  shows "\<exists>ps ds. all_patterns_of expectations = Inr ps \<and>
           classify_diffs diffs expectations = Inr ds \<and> length ds = length diffs \<and>
           map_of ps (JStr p) = Some (JStr LABEL_UNKNOWN, get_or e ''reason'' (JStr [])) \<and>
           (\<forall>i < length diffs. winning_pattern (key (diffs ! i)) ps = Some (JStr p) \<longrightarrow>
              ds ! i = (diffs ! i)\<lparr>label := JStr LABEL_UNKNOWN,
                                   reason := get_or e ''reason'' (JStr [])\<rparr>)"
proof -
  from assms(1) obtain ps bugs where ps: "all_patterns_of expectations = Inr ps"
    and b: "build_map expectations ''known_bugs'' = Inr bugs"
    and s: "str_keys ps" and d: "distinct (map fst ps)"
    and w: "\<And>k v. map_of bugs k = Some v \<Longrightarrow> map_of ps k = Some v"
    using all_patterns_ok by blast
  from w[OF known_bugs_unlabelled_value[OF b assms(2-6)]]
  have v: "map_of ps (JStr p) = Some (JStr LABEL_UNKNOWN, get_or e ''reason'' (JStr []))" .
  from map_result_total[of diffs "classify_one ps"] classify_one_total[OF s]
  obtain ds where ds: "map_result (classify_one ps) diffs = Inr ds" by blast
  then have c: "classify_diffs diffs expectations = Inr ds"
    by (simp add: classify_diffs_def ps)
  have "ds ! i = (diffs ! i)\<lparr>label := JStr LABEL_UNKNOWN, reason := get_or e ''reason'' (JStr [])\<rparr>"
    if "i < length diffs" "winning_pattern (key (diffs ! i)) ps = Some (JStr p)" for i
    using map_result_nth[OF ds that(1)] classify_one_winner[OF s d that(2) v] by simp
  with ps c v map_result_Inr_length[OF ds] show ?thesis by blast
qed

theorem known_bug_without_label_witness:
  "overlay_ok ex_overlay_reason \<and>
   classify_diffs [DiffEntry ''device.model'' (JStr ''A'') (JStr ''B'')] ex_overlay_reason
     = Inr [ex_labeled ''device.model'' ''unknown'' ''tracked'']"
proof -
  have ok: "overlay_ok ex_overlay_reason"
    by (simp add: overlay_ok_def section_names_def section_ok_def get_or_def ex_overlay_reason_def)
  have g: "get_or ex_overlay_reason ''known_bugs'' (JList [])
      = JList ([] @ JObj [(''key'', JStr ''device.model''), (''reason'', JStr ''tracked'')] # [])"
    by (simp add: get_or_def ex_overlay_reason_def)
  have a: "all_patterns_of ex_overlay_reason
      = Inr [(JStr ''device.model'', JStr LABEL_UNKNOWN, JStr ''tracked'')]"
    by (simp add: all_patterns_of_def build_map_def dict_update_def implied_label_def get_or_def
        ex_overlay_reason_def)
  from known_bug_without_label[OF ok g, of "''device.model''"
      "[DiffEntry ''device.model'' (JStr ''A'') (JStr ''B'')]"]
  obtain ds where
    c: "classify_diffs [DiffEntry ''device.model'' (JStr ''A'') (JStr ''B'')] ex_overlay_reason = Inr ds"
    and l: "length ds = 1"
    and w: "winning_pattern ''device.model'' [(JStr ''device.model'', JStr LABEL_UNKNOWN, JStr ''tracked'')]
               = Some (JStr ''device.model'') \<longrightarrow>
            ds ! 0 = (DiffEntry ''device.model'' (JStr ''A'') (JStr ''B''))
                       \<lparr>label := JStr LABEL_UNKNOWN, reason := JStr ''tracked''\<rparr>"
    by (auto simp: a get_or_def DiffEntry_def)
  have "winning_pattern ''device.model'' [(JStr ''device.model'', JStr LABEL_UNKNOWN, JStr ''tracked'')]
               = Some (JStr ''device.model'')"
    by (simp add: winning_pattern_def matches_def)
  with w have "ds ! 0 = ex_labeled ''device.model'' ''unknown'' ''tracked''"
    by (simp add: DiffEntry_def ex_labeled_def LABEL_UNKNOWN_def)
  with l have "ds = [ex_labeled ''device.model'' ''unknown'' ''tracked'']"
    by (cases ds) auto
  with ok c show ?thesis by simp
qed

subsection \<open>Overlay precedence\<close>

lemma dict_set_fresh: "k \<notin> fst ` set m \<Longrightarrow> dict_set m k v = m @ [(k, v)]"
  by (induction m) auto

lemma dict_update_fresh:
  "distinct (map fst b) \<Longrightarrow> fst ` set a \<inter> fst ` set b = {} \<Longrightarrow> dict_update a b = a @ b"
proof (induction b arbitrary: a)
  case Nil
  then show ?case by (simp add: dict_update_Nil)
next
  case (Cons x b)
  from Cons.prems have f: "fst x \<notin> fst ` set a" by auto
  have "dict_update (a @ [x]) b = (a @ [x]) @ b"
    using Cons.prems by (intro Cons.IH) auto
  with f show ?case
    by (simp add: dict_update_Cons dict_set_fresh)
qed

lemma build_map_loop_fresh:
  assumes "list_all (\<lambda>x. case x of JObj e \<Rightarrow> is_str (entry_key x) | _ \<Rightarrow> False) es"
    and "distinct (map fst (acc @ concat (map (entry_item implied) es)))"
  shows "build_map_loop implied es acc = Inr (acc @ concat (map (entry_item implied) es))"
  using assms
proof (induction es arbitrary: acc)
  case Nil
  then show ?case by simp
next
  case (Cons x es)
  from Cons.prems(1) obtain e where x: "x = JObj e" by (cases x) auto
  with Cons.prems(1) have s: "is_str (get_or e ''key'' (JStr []))"
    and rest: "list_all (\<lambda>x. case x of JObj e \<Rightarrow> is_str (entry_key x) | _ \<Rightarrow> False) es"
    by simp_all
  then have h: "hashable (get_or e ''key'' (JStr []))"
    by (cases "get_or e ''key'' (JStr [])") auto
  show ?case
  proof (cases "truthy (get_or e ''key'' (JStr []))")
    case True
    let ?it = "(get_or e ''key'' (JStr []),
             if truthy (get_or e ''label'' implied) then get_or e ''label'' implied
             else JStr LABEL_UNKNOWN,
             get_or e ''reason'' (JStr []))"
    from True have it: "entry_item implied x = [?it]" by (simp add: x)
    from Cons.prems(2) have "fst ?it \<notin> fst ` set acc"
      by (simp add: it)
    then have ds: "dict_set acc (fst ?it) (snd ?it) = acc @ [?it]"
      by (simp add: dict_set_fresh)
    have "build_map_loop implied es (acc @ [?it])
            = Inr ((acc @ [?it]) @ concat (map (entry_item implied) es))"
      using Cons.prems(2) by (intro Cons.IH[OF rest]) (simp add: it)
    with True h ds show ?thesis
      unfolding x build_map_loop_step by (simp add: x[symmetric] it)
  next
    case False
    then have it: "entry_item implied x = []" by (simp add: x)
    from Cons.prems(2) have "distinct (map fst (acc @ concat (map (entry_item implied) es)))"
      by (simp add: it)
    from Cons.IH[OF rest this] False show ?thesis
      unfolding x build_map_loop_step by (simp add: x[symmetric] it)
  qed
qed

lemma build_map_fresh:
  assumes "section_ok expectations s" and "distinct (map fst (section_items expectations s))"
  shows "build_map expectations s = Inr (section_items expectations s)"
proof -
  from assms(1) obtain es where es: "get_or expectations s (JList []) = JList es"
    and ok: "list_all (\<lambda>x. case x of JObj e \<Rightarrow> is_str (entry_key x) | _ \<Rightarrow> False) es"
    by (auto simp: section_ok_def split: json.splits)
  from es have se: "section_entries expectations s = es"
    by (simp add: section_entries_def)
  from build_map_loop_fresh[OF ok, of "[]" "implied_label s"] assms(2)
  show ?thesis
    by (simp add: build_map_def es section_items_def se)
qed

text \<open>
  When no pattern is declared twice in a well-formed overlay, the merged map is the list
  of the declared patterns, section after section, each section in the order of its
  declaration. With \<open>first_match_find\<close>, the first of them that matches decides.
\<close>

lemma precedence_distinct_patterns:
  assumes "overlay_ok expectations" and "distinct (map fst (overlay_items expectations))"
  shows "all_patterns_of expectations = Inr (overlay_items expectations)"
proof -
  let ?i = "section_items expectations ''intentional_differences''"
  let ?q = "section_items expectations ''quirk_needed''"
  let ?b = "section_items expectations ''known_bugs''"
  from assms(1) have ok: "section_ok expectations ''intentional_differences''"
    "section_ok expectations ''quirk_needed''" "section_ok expectations ''known_bugs''"
    by (simp_all add: overlay_ok_def section_names_def)
  have o: "overlay_items expectations = ?i @ ?q @ ?b"
    by (simp add: overlay_items_def section_names_def)
  from assms(2) have d: "distinct (map fst ?i)" "distinct (map fst ?q)" "distinct (map fst ?b)"
    "fst ` set ?i \<inter> fst ` set ?q = {}" "fst ` set (?i @ ?q) \<inter> fst ` set ?b = {}"
    unfolding o by auto
  have "dict_update (dict_update (dict_update [] ?i) ?q) ?b = ?i @ ?q @ ?b"
    using d by (simp add: dict_update_fresh)
  then show ?thesis
    by (simp add: all_patterns_of_def build_map_fresh[OF ok(1) d(1)]
        build_map_fresh[OF ok(2) d(2)] build_map_fresh[OF ok(3) d(3)] o)
qed

text \<open>
  C1 at a pattern that is declared twice. The map of a section and the merge of the
  three maps are dicts keyed by the pattern: a second declaration keeps the place of the
  first and replaces its label and reason. Declared in intentional_differences and in
  known_bugs, the pattern labels the entry with the label of known_bugs; declared twice
  in known_bugs, with the label of the second declaration.
\<close>

theorem overlay_precedence_failing_input:
  "all_patterns_of ex_overlay_two_sections
     = Inr [(JStr ''device.model'', JStr ''bug_swiftmtp'', JStr ''defect'')] \<and>
   classify_diffs [DiffEntry ''device.model'' (JStr ''A'') (JStr ''B'')] ex_overlay_two_sections
     = Inr [ex_labeled ''device.model'' ''bug_swiftmtp'' ''defect''] \<and>
   all_patterns_of ex_overlay_one_section
     = Inr [(JStr ''device.model'', JStr ''bug_swiftmtp'', JStr ''second'')] \<and>
   classify_diffs [DiffEntry ''device.model'' (JStr ''A'') (JStr ''B'')] ex_overlay_one_section
     = Inr [ex_labeled ''device.model'' ''bug_swiftmtp'' ''second'']"
  by (simp add: classify_eval classify_one_def get_or_def ex_overlay_two_sections_def
      ex_overlay_one_section_def DiffEntry_def ex_labeled_def)

subsection \<open>Path resolution\<close>

lemma is_int_hashable: "is_int v \<Longrightarrow> hashable v"
  by (cases v) auto

lemma folder_loop_total:
  "list_all folder_ok fs \<Longrightarrow> \<exists>r. folder_loop fmt fs m = Inr r"
proof (induction fs arbitrary: m)
  case Nil
  then show ?case by simp
next
  case (Cons f fs)
  then have "hashable (get_or f ''id'' (JInt 0))" "hashable (get_or f ''parent_id'' (JInt 0))"
    by (simp_all add: folder_ok_def is_int_hashable)
  with Cons show ?case by (simp add: Let_def)
qed

lemma py_sorted_int_keys:
  "list_all (\<lambda>x. is_int (kf x)) xs \<Longrightarrow> \<exists>ys. py_sorted kf xs = Inr ys"
  by (simp add: py_sorted_def)

lemma py_sorted_str_keys:
  "list_all (\<lambda>x. is_str (kf x)) xs \<Longrightarrow> \<exists>ys. py_sorted kf xs = Inr ys"
  by (simp add: py_sorted_def)

lemma py_sorted_length: "py_sorted kf xs = Inr ys \<Longrightarrow> length ys = length xs"
  by (auto simp: py_sorted_def split: if_splits)

lemma build_folder_map_total:
  assumes "list_all folder_ok folders"
  shows "\<exists>fm. build_folder_map fmt folders = Inr fm"
proof -
  from assms have "list_all (\<lambda>f. is_int (get_or f ''id'' (JInt 0))) folders"
    by (simp add: list_all_iff folder_ok_def)
  from py_sorted_int_keys[OF this] obtain sorted_folders where
    s: "py_sorted (\<lambda>f. get_or f ''id'' (JInt 0)) folders = Inr sorted_folders" by blast
  from py_sorted_set[OF s] assms have "list_all folder_ok sorted_folders"
    by (simp add: list_all_iff)
  from folder_loop_total[OF this] s show ?thesis
    by (simp add: build_folder_map_def)
qed

lemma lib_entry_path:
  assumes "file_ok f"
  shows "lib_entry fmt fm f =
     Inr ([(''path'', join_path fmt (lookup_or fm (get_or f ''parent_id'' (JInt 0)) (JStr []))
                        (get_or f ''name'' (JStr []))),
           (''size_bytes'', get_or f ''size_bytes'' (JInt 0))] @
          (case map_of f ''mtime'' of Some m \<Rightarrow> [(''mtime'', m)] | None \<Rightarrow> []))"
  using assms by (simp add: lib_entry_def file_ok_def is_int_hashable Let_def)

lemma join_path_str: "is_str name \<Longrightarrow> is_str (join_path fmt parent name)"
  by (simp add: join_path_def)

lemma join_path_unresolved: "join_path fmt (JStr []) name = name"
  by (simp add: join_path_def)

text \<open>
  On well-typed records the libmtp side of \<^verbatim>\<open>_normalise_files\<close> does not raise and
  returns one entry for each file; a file whose parent id is not in the folder map has
  its bare name as path.
\<close>

lemma lib_files_total:
  assumes "list_all folder_ok folders" and "list_all file_ok files"
  shows "\<exists>fm out. build_folder_map fmt folders = Inr fm \<and>
           lib_files_of fmt fm files = Inr out \<and> length out = length files"
proof -
  from build_folder_map_total[OF assms(1)] obtain fm where
    fm: "build_folder_map fmt folders = Inr fm" by blast
  have "\<exists>y. lib_entry fmt fm f = Inr y" if "f \<in> set files" for f
    using that assms(2) lib_entry_path[of f fmt fm] by (simp add: list_all_iff)
  from map_result_total[of files "lib_entry fmt fm", OF this] obtain es where
    es: "map_result (lib_entry fmt fm) files = Inr es" by blast
  have "is_str (get_none e ''path'')" if "e \<in> set es" for e
  proof -
    from map_result_set[OF es that] obtain f where f: "f \<in> set files" "lib_entry fmt fm f = Inr e"
      by blast
    with assms(2) have "file_ok f" by (simp add: list_all_iff)
    from f(2) lib_entry_path[OF this, of fmt fm] \<open>file_ok f\<close> show ?thesis
      by (auto simp: get_none_def get_or_def file_ok_def join_path_str)
  qed
  then have "list_all (\<lambda>x. is_str (get_none x ''path'')) es"
    by (simp add: list_all_iff)
  from py_sorted_str_keys[OF this] obtain out where
    out: "py_sorted (\<lambda>x. get_none x ''path'') es = Inr out" by blast
  from py_sorted_length[OF out] map_result_Inr_length[OF es] fm es out show ?thesis
    by (simp add: lib_files_of_def)
qed

lemma lib_entry_unresolved:
  assumes "file_ok f" and "map_of fm (get_or f ''parent_id'' (JInt 0)) = None"
  shows "\<exists>e. lib_entry fmt fm f = Inr e \<and> get_none e ''path'' = get_or f ''name'' (JStr [])"
  using assms lib_entry_path[OF assms(1), of fmt fm]
  by (simp add: lookup_or_def join_path_unresolved get_none_def get_or_def)

lemma ex_folder_map:
  "build_folder_map (\<lambda>v. []) ex_folders
     = Inr [(JInt 0, JStr []), (JInt 2, JStr ''B''), (JInt 5, JStr ''A'')]"
  by (simp add: build_folder_map_def ex_folders_def py_sorted_def get_or_def lookup_or_def
      join_path_def py_str_def)

text \<open>
  C9 at a folder whose parent has the larger id. The folder map is filled in one pass
  over the folders in the order of their ids, so folder 2 is stored before its parent 5
  and gets its bare name; the file in folder 2 resolves to \<^verbatim>\<open>B/f.txt\<close> and not to
  \<^verbatim>\<open>A/B/f.txt\<close>, the path of its chain of parents.
\<close>

theorem path_resolution_failing_input:
  "build_folder_map (\<lambda>v. []) ex_folders
     = Inr [(JInt 0, JStr []), (JInt 2, JStr ''B''), (JInt 5, JStr ''A'')] \<and>
   normalise_files (\<lambda>v. []) (\<lambda>s. None) [ex_nested_file] ex_folders (JList [])
     = Inr ([ex_bare ''B/f.txt'' 1], [])"
  by (simp add: normalise_files_def ex_folder_map lib_files_of_def lib_entry_def
      swift_files_of_def join_path_def lookup_or_def py_sorted_def get_or_def get_none_def
      py_str_def ex_nested_file_def ex_bare_def)

subsection \<open>Folders\<close>


























end
